theory Spec2Isabelle
  imports Main
begin

section \<open>Strings: \<open>str.lower\<close> and the \<open>in\<close> operator\<close>

text \<open>
  Request texts are lists of characters. \<open>str.lower()\<close> is modelled on the letters
  \<open>A\<close> to \<open>Z\<close>; every other character is left as it is. The keywords the Router looks
  for (\<open>time\<close>, \<open>add\<close>, \<open>subtract\<close>, \<open>+\<close>, \<open>-\<close>) are made of such characters only.
\<close>

definition lower_char :: "char \<Rightarrow> char" where
  "lower_char c =
     (let n = (of_char c :: nat) in if 65 \<le> n \<and> n \<le> 90 then char_of (n + 32) else c)"

definition lower :: "string \<Rightarrow> string" where
  "lower s = map lower_char s"

text \<open>\<open>starts_with kw s\<close>: the text \<open>s\<close> begins with \<open>kw\<close>.\<close>

fun starts_with :: "string \<Rightarrow> string \<Rightarrow> bool" where
  "starts_with [] s = True"
| "starts_with (k # ks) [] = False"
| "starts_with (k # ks) (c # cs) = (k = c \<and> starts_with ks cs)"

text \<open>\<open>contains kw s\<close> is Python's \<open>kw in s\<close> on strings: \<open>kw\<close> occurs in \<open>s\<close> as a
  contiguous substring.\<close>

fun contains :: "string \<Rightarrow> string \<Rightarrow> bool" where
  "contains kw [] = (kw = [])"
| "contains kw (c # cs) = (starts_with kw (c # cs) \<or> contains kw cs)"

text \<open>The condition of the Router's second rule (line 160), as it stands in the source.\<close>

abbreviation math_keyword :: "string \<Rightarrow> bool" where
  "math_keyword l \<equiv>
     contains ''add'' l \<or> contains ''subtract'' l \<or> contains ''+'' l \<or> contains ''-'' l"

section \<open>Data model of \<open>test.py\<close>\<close>

text \<open>\<open>types.Part\<close>, \<open>types.Content\<close> and \<open>Event\<close>, with the fields the Router reads and
  writes. Optional fields of the Python classes are options. The field \<open>text\<close> of a part is
  called \<open>part_text\<close> and the field \<open>content\<close> of an event \<open>event_content\<close>; identifiers
  and time stamps that the library gives to an event are left out.\<close>

record part =
  part_text :: "string option"

record content =
  role :: string
  parts :: "part list option"

record event =
  author :: string
  event_content :: "content option"

text \<open>\<open>ctx.session.state\<close>: a dictionary from keys to values. A value is kept as the text
  that an f-string renders for it, which is all the Router does with a value.\<close>

type_synonym state = "string \<rightharpoonup> string"

record invocation_context =
  user_content :: "content option"
  session_state :: state

text \<open>An exception raised by Python code, by the name of its class.\<close>

datatype py_exception = PyException string

text \<open>
  A branch agent is an \<open>LlmAgent\<close> of the library: external code. Its \<open>run_async(ctx)\<close> is
  a parameter of the model, given by what its caller observes: the events it yields, the
  session state it leaves, and the exception it raises, if any (then the events are those
  yielded before the exception).
\<close>

record agent_run =
  yielded :: "event list"
  state_after :: state
  raised :: "py_exception option"

type_synonym agent = "invocation_context \<Rightarrow> agent_run"

record master_orchestrator =
  name :: string
  math_branch :: agent
  time_branch :: agent

text \<open>What the Router does, in program order: a log line, the start of a branch's
  \<open>run_async\<close>, an event yielded to the caller, a read of the session state.\<close>

datatype branch = TimeBranch | MathBranch

datatype effect =
    LogInfo string
  | RunAsync branch
  | Yield event
  | StateGet string

record outcome =
  effects :: "effect list"
  final_state :: state
  failure :: "py_exception option"

section \<open>\<open>MasterOrchestrator._run_async_impl\<close>\<close>

text \<open>Lines 143 to 145: the request text is the text of \<open>parts[0]\<close>, and the empty string
  when the user content, its parts or that text are missing or empty.\<close>

definition user_input_of :: "invocation_context \<Rightarrow> string" where
  "user_input_of ctx =
     (case user_content ctx of
        None \<Rightarrow> []
      | Some c \<Rightarrow>
          (case parts c of
             None \<Rightarrow> []
           | Some [] \<Rightarrow> []
           | Some (p # ps) \<Rightarrow> (case part_text p of None \<Rightarrow> [] | Some t \<Rightarrow> t)))"

text \<open>\<open>state.get(key, default)\<close>.\<close>

definition state_get :: "state \<Rightarrow> string \<Rightarrow> string \<Rightarrow> string" where
  "state_get st key dflt = (case st key of None \<Rightarrow> dflt | Some v \<Rightarrow> v)"

text \<open>Lines 172 to 178: log the final text, build the content and yield the Router's own
  event.\<close>

definition final_event :: "master_orchestrator \<Rightarrow> string \<Rightarrow> event" where
  "final_event self final_text =
     \<lparr>author = name self,
      event_content = Some \<lparr>role = ''model'', parts = Some [\<lparr>part_text = Some final_text\<rparr>]\<rparr>\<rparr>"

definition emit_final :: "master_orchestrator \<Rightarrow> effect list \<Rightarrow> state \<Rightarrow> string \<Rightarrow> outcome" where
  "emit_final self sofar st final_text =
     \<lparr>effects = sofar @
        [LogInfo (''['' @ name self @ ''] Final Response: '' @ final_text),
         Yield (final_event self final_text)],
      final_state = st,
      failure = None\<rparr>"

text \<open>
  Lines 139 to 178. The branch's events are yielded again one by one; an exception of the
  branch leaves the Router at that point, since the source has no handler; otherwise the
  branch's key is read from the session state and the final text is built.
\<close>

definition run_async_impl :: "master_orchestrator \<Rightarrow> invocation_context \<Rightarrow> outcome" where
  "run_async_impl self ctx =
     (let user_input = user_input_of ctx;
          user_input_lower = lower user_input;
          log1 = [LogInfo (''['' @ name self @ ''] User Input: '' @ user_input)]
      in
        if contains ''time'' user_input_lower then
          (let r = time_branch self ctx;
               sofar = log1 @ [LogInfo (''['' @ name self @ ''] Routing to Time Branch''),
                              RunAsync TimeBranch] @ map Yield (yielded r)
           in case raised r of
                Some e \<Rightarrow> \<lparr>effects = sofar, final_state = state_after r, failure = Some e\<rparr>
              | None \<Rightarrow>
                  (let result = state_get (state_after r) ''time_result'' ''Unknown Time'';
                       final_text = ''The time is: '' @ result
                   in emit_final self (sofar @ [StateGet ''time_result'']) (state_after r)
                        final_text))
        else if contains ''add'' user_input_lower \<or> contains ''subtract'' user_input_lower
                  \<or> contains ''+'' user_input_lower \<or> contains ''-'' user_input_lower then
          (let r = math_branch self ctx;
               sofar = log1 @ [LogInfo (''['' @ name self @ ''] Routing to Math Branch''),
                              RunAsync MathBranch] @ map Yield (yielded r)
           in case raised r of
                Some e \<Rightarrow> \<lparr>effects = sofar, final_state = state_after r, failure = Some e\<rparr>
              | None \<Rightarrow>
                  (let result = state_get (state_after r) ''calc_result'' ''Unknown Result'';
                       final_text = ''The calculated result is: '' @ result
                   in emit_final self (sofar @ [StateGet ''calc_result'']) (state_after r)
                        final_text))
        else
          emit_final self log1 (session_state ctx)
            ''I can only help with Math or Time requests.'')"

section \<open>What a run shows to its caller\<close>

text \<open>The events of a run in the order they were yielded, the branches whose \<open>run_async\<close>
  was started, and the keys read from the session state.\<close>

fun events_of :: "effect list \<Rightarrow> event list" where
  "events_of [] = []"
| "events_of (Yield e # fs) = e # events_of fs"
| "events_of (f # fs) = events_of fs"

fun branches_run :: "effect list \<Rightarrow> branch list" where
  "branches_run [] = []"
| "branches_run (RunAsync b # fs) = b # branches_run fs"
| "branches_run (f # fs) = branches_run fs"

fun state_reads :: "effect list \<Rightarrow> string list" where
  "state_reads [] = []"
| "state_reads (StateGet k # fs) = k # state_reads fs"
| "state_reads (f # fs) = state_reads fs"

text \<open>The text of an event with a single text part.\<close>

definition event_text :: "event \<Rightarrow> string option" where
  "event_text e =
     (case event_content e of
        None \<Rightarrow> None
      | Some c \<Rightarrow> (case parts c of Some [p] \<Rightarrow> part_text p | _ \<Rightarrow> None))"

text \<open>The events handed over by the branch that was started, if any.\<close>

definition delegated_events :: "master_orchestrator \<Rightarrow> invocation_context \<Rightarrow> event list" where
  "delegated_events self ctx =
     (case branches_run (effects (run_async_impl self ctx)) of
        [] \<Rightarrow> []
      | TimeBranch # bs \<Rightarrow> yielded (time_branch self ctx)
      | MathBranch # bs \<Rightarrow> yielded (math_branch self ctx))"

text \<open>The exception raised by the branch that was started, if any.\<close>

definition delegated_raised ::
  "master_orchestrator \<Rightarrow> invocation_context \<Rightarrow> py_exception option" where
  "delegated_raised self ctx =
     (case branches_run (effects (run_async_impl self ctx)) of
        [] \<Rightarrow> None
      | TimeBranch # bs \<Rightarrow> raised (time_branch self ctx)
      | MathBranch # bs \<Rightarrow> raised (math_branch self ctx))"

text \<open>The effects of a run up to the start of a branch (all of them when no branch is
  started).\<close>

fun before_dispatch :: "effect list \<Rightarrow> effect list" where
  "before_dispatch [] = []"
| "before_dispatch (RunAsync b # fs) = []"
| "before_dispatch (f # fs) = f # before_dispatch fs"

section \<open>The runs of \<open>main\<close>\<close>

text \<open>The three queries of \<open>main\<close> (lines 204, 216 and 228), each sent as a user message
  with a single text part.\<close>

definition user_message :: "string \<Rightarrow> content" where
  "user_message t = \<lparr>role = ''user'', parts = Some [\<lparr>part_text = Some t\<rparr>]\<rparr>"

definition math_query :: string where
  "math_query = ''What is 9 added to 5 and then 13 subtracted from the result?''"

definition time_query :: string where
  "time_query = ''What is the time?''"

definition weather_query :: string where
  "weather_query = ''What is the time in and weather in New York. After fetching time and weather, add the temperature in fahreinheit and minutes of the times fetched.?''"

text \<open>Sample branch agents: one that answers and writes its key, one that answers
  without writing any key, and one that raises before yielding anything.\<close>

definition writing_agent :: "string \<Rightarrow> string \<Rightarrow> string \<Rightarrow> agent" where
  "writing_agent nm key v ctx =
     \<lparr>yielded = [\<lparr>author = nm,
                  event_content = Some \<lparr>role = ''model'', parts = Some [\<lparr>part_text = Some v\<rparr>]\<rparr>\<rparr>],
      state_after = (session_state ctx)(key \<mapsto> v),
      raised = None\<rparr>"

definition silent_agent :: "string \<Rightarrow> agent" where
  "silent_agent nm ctx =
     \<lparr>yielded = [\<lparr>author = nm, event_content = None\<rparr>],
      state_after = session_state ctx,
      raised = None\<rparr>"

definition raising_agent :: agent where
  "raising_agent ctx =
     \<lparr>yielded = [], state_after = session_state ctx, raised = Some (PyException ''RuntimeError'')\<rparr>"

definition master :: master_orchestrator where
  "master = \<lparr>name = ''MasterOrchestrator'',
             math_branch = writing_agent ''ArithmeticAgent'' ''calc_result'' ''1'',
             time_branch = writing_agent ''TimeWeatherAgent'' ''time_result'' ''12:00:00''\<rparr>"

definition new_session :: "string \<Rightarrow> invocation_context" where
  "new_session t = \<lparr>user_content = Some (user_message t), session_state = Map.empty\<rparr>"


text \<open>A Router whose branches answer without writing their keys, a context without any
  user message, and a message of two parts.\<close>

definition quiet_master :: master_orchestrator where
  "quiet_master = \<lparr>name = ''MasterOrchestrator'',
                   math_branch = silent_agent ''MathOrchestrator'',
                   time_branch = silent_agent ''TimeOrchestrator''\<rparr>"

definition no_message :: invocation_context where
  "no_message = \<lparr>user_content = None, session_state = Map.empty\<rparr>"

definition two_parts :: "string \<Rightarrow> string \<Rightarrow> invocation_context" where
  "two_parts t u =
     \<lparr>user_content = Some \<lparr>role = ''user'',
                            parts = Some [\<lparr>part_text = Some t\<rparr>, \<lparr>part_text = Some u\<rparr>]\<rparr>,
      session_state = Map.empty\<rparr>"

section \<open>Sequential and parallel composition\<close>

text \<open>
  The workflows of \<open>Workflow-1.py\<close> and \<open>Workflow-3.py\<close> are built from the classes
  \<open>LlmAgent\<close>, \<open>SequentialAgent\<close> and \<open>ParallelAgent\<close> of the \<open>google.adk\<close> library. The
  source files only construct these agents; how they run is not in the source files, and
  is taken from sections 4.2 to 4.4 and 5 of the specification.
\<close>

text \<open>An \<open>LlmAgent\<close> as the workflows declare it, with the fields that matter to the
  composition: its name and its \<open>output_key\<close>.\<close>

record llm_agent =
  agent_name :: string
  output_key :: "string option"

text \<open>Modelled from the spec: the agent variants Leaf, Sequential and Parallel of section
  3 (the classes they stand for are not in the source files); a composite has a name and
  its children in order.\<close>

datatype base_agent =
    LlmAgent llm_agent
  | SequentialAgent string "base_agent list"
  | ParallelAgent string "base_agent list"

text \<open>Modelled from the spec: the external capability of section 6, missing from the
  source files: given the agent, the request text and a snapshot of the state, it produces
  a result or fails (\<open>None\<close>).\<close>

type_synonym capability = "llm_agent \<Rightarrow> string \<Rightarrow> state \<Rightarrow> string option"

text \<open>Modelled from the spec: what a running agent does, which the source files do not
  contain: it writes a state key or emits an event (sections 3 and 4.2).\<close>

datatype step = Write string string | Emit event

text \<open>Modelled from the spec: the result of a run, which the source files do not define:
  the steps taken, in order, and the names of the leaves that failed (section 7).\<close>

record composed_run =
  steps :: "step list"
  failed :: "string list"

text \<open>Modelled from the spec: the state mapping of section 4.1, missing from the source
  files: a write is last-write-wins, an event leaves the state alone.\<close>

fun apply_step :: "state \<Rightarrow> step \<Rightarrow> state" where
  "apply_step st (Write k v) = st(k \<mapsto> v)"
| "apply_step st (Emit e) = st"

definition apply_steps :: "state \<Rightarrow> step list \<Rightarrow> state" where
  "apply_steps st ss = foldl apply_step st ss"

text \<open>The events and the written keys of a sequence of steps, in order.\<close>

fun emitted :: "step list \<Rightarrow> event list" where
  "emitted [] = []"
| "emitted (Emit e # ss) = e # emitted ss"
| "emitted (Write k v # ss) = emitted ss"

fun written :: "step list \<Rightarrow> string list" where
  "written [] = []"
| "written (Write k v # ss) = k # written ss"
| "written (Emit e # ss) = written ss"

text \<open>
  Modelled from the spec: the overlap in time of the children of a Parallel agent (sections
  4.4 and 5), whose scheduling is not in the source files. A schedule is a list of child
  numbers: at each entry the named child, if it has a step left, takes its next step; when
  the schedule is used up the children finish one after the other. Each child's steps keep
  their own order, and every child runs to its end.
\<close>

definition take_from :: "nat \<Rightarrow> 'a list list \<Rightarrow> ('a \<times> 'a list list) option" where
  "take_from i ts =
     (if i < length ts
      then (case ts ! i of [] \<Rightarrow> None | x # xs \<Rightarrow> Some (x, ts[i := xs]))
      else None)"

fun interleave :: "nat list \<Rightarrow> 'a list list \<Rightarrow> 'a list" where
  "interleave [] ts = concat ts"
| "interleave (i # sched) ts =
     (case take_from i ts of
        None \<Rightarrow> interleave sched ts
      | Some (x, ts') \<Rightarrow> x # interleave sched ts')"

text \<open>
  Modelled from the spec: the run of a Leaf (section 4.2), missing from the source files.
  The capability is invoked once; on success the result is written under \<open>output_key\<close>, if
  there is one, and then one event authored by the leaf is produced; on failure nothing is
  written and the leaf is reported as failed.
\<close>

definition leaf_run :: "capability \<Rightarrow> string \<Rightarrow> llm_agent \<Rightarrow> state \<Rightarrow> composed_run" where
  "leaf_run cap req a st =
     (case cap a req st of
        None \<Rightarrow> \<lparr>steps = [], failed = [agent_name a]\<rparr>
      | Some res \<Rightarrow>
          \<lparr>steps = (case output_key a of None \<Rightarrow> [] | Some k \<Rightarrow> [Write k res])
                   @ [Emit \<lparr>author = agent_name a,
                            event_content =
                              Some \<lparr>role = ''model'', parts = Some [\<lparr>part_text = Some res\<rparr>]\<rparr>\<rparr>],
           failed = []\<rparr>)"

text \<open>
  Modelled from the spec: the runs of Sequential and Parallel agents (sections 4.3 and
  4.4), missing from the source files. A Sequential agent runs its children one after
  another, each on the state left by those before it, and stops at the first child that
  fails. A Parallel agent runs all its children on the state it was started with, merges
  their steps by the schedule given for its name, and reports every failed child.
\<close>

fun run_agent ::
    "capability \<Rightarrow> (string \<Rightarrow> nat list) \<Rightarrow> string \<Rightarrow> base_agent \<Rightarrow> state \<Rightarrow> composed_run"
  and run_chain ::
    "capability \<Rightarrow> (string \<Rightarrow> nat list) \<Rightarrow> string \<Rightarrow> base_agent list \<Rightarrow> state \<Rightarrow> composed_run"
where
  "run_agent cap sched req (LlmAgent a) st = leaf_run cap req a st"
| "run_agent cap sched req (SequentialAgent n cs) st = run_chain cap sched req cs st"
| "run_agent cap sched req (ParallelAgent n cs) st =
     (let rs = map (\<lambda>c. run_agent cap sched req c st) cs
      in \<lparr>steps = interleave (sched n) (map steps rs), failed = concat (map failed rs)\<rparr>)"
| "run_chain cap sched req [] st = \<lparr>steps = [], failed = []\<rparr>"
| "run_chain cap sched req (c # cs) st =
     (let r = run_agent cap sched req c st
      in if failed r \<noteq> [] then r
         else (let r' = run_chain cap sched req cs (apply_steps st (steps r))
               in \<lparr>steps = steps r @ steps r', failed = failed r'\<rparr>))"

text \<open>The agents of \<open>Workflow-3.py\<close> (lines 24 to 68).\<close>

definition PROS_Agent :: llm_agent where
  "PROS_Agent = \<lparr>agent_name = ''PROSAgent'', output_key = Some ''PROS''\<rparr>"

definition CONS_Agent :: llm_agent where
  "CONS_Agent = \<lparr>agent_name = ''CONSAgent'', output_key = Some ''CONS''\<rparr>"

definition parallel_stage :: base_agent where
  "parallel_stage = ParallelAgent ''ParallelStage'' [LlmAgent PROS_Agent, LlmAgent CONS_Agent]"

definition final_agent :: llm_agent where
  "final_agent = \<lparr>agent_name = ''FinalSynthesizer'', output_key = None\<rparr>"

definition orchestrator :: base_agent where
  "orchestrator = SequentialAgent ''Orchestrator'' [parallel_stage, LlmAgent final_agent]"

text \<open>The agents of \<open>Workflow-1.py\<close> (lines 33 to 78).\<close>

definition city_agent :: llm_agent where
  "city_agent = \<lparr>agent_name = ''CityAgent'', output_key = Some ''city_recommendations''\<rparr>"

definition country_agent :: llm_agent where
  "country_agent =
     \<lparr>agent_name = ''CountryAgent'', output_key = Some ''country_recommendations''\<rparr>"

definition orchestrator_agent :: base_agent where
  "orchestrator_agent =
     SequentialAgent ''OrchestratorAgent'' [LlmAgent country_agent, LlmAgent city_agent]"

text \<open>Sample capabilities and schedules: one capability answers with the agent's name and
  the request, one always fails; one schedule lets the second child move first.\<close>

definition echo :: capability where
  "echo a req st = Some (agent_name a @ '': '' @ req)"

definition offline :: capability where
  "offline a req st = None"

definition second_first :: "string \<Rightarrow> nat list" where
  "second_first n = [1, 0, 1]"

text \<open>The queries of the two workflows (\<open>Workflow-3.py\<close> line 85, \<open>Workflow-1.py\<close> line
  101).\<close>

definition pizza_query :: string where
  "pizza_query = ''Should i eat pizza on a regular basis?''"

definition travel_query :: string where
  "travel_query = ''I want to visit a place in Europe that has great beaches and historical ruins.''"

section \<open>Substring search is what it should be\<close>

lemma starts_with_iff: "starts_with kw s \<longleftrightarrow> (\<exists>q. s = kw @ q)"
  by (induction kw s rule: starts_with.induct) auto

lemma contains_iff: "contains kw s \<longleftrightarrow> (\<exists>p q. s = p @ kw @ q)"
proof (induction s)
  case Nil
  then show ?case by auto
next
  case (Cons c cs)
  show ?case
  proof
    assume "contains kw (c # cs)"
    then consider "starts_with kw (c # cs)" | "contains kw cs" by auto
    then show "\<exists>p q. c # cs = p @ kw @ q"
    proof cases
      case 1
      then obtain q where "c # cs = kw @ q" by (auto simp: starts_with_iff)
      then have "c # cs = [] @ kw @ q" by simp
      then show ?thesis by blast
    next
      case 2
      then obtain p q where "cs = p @ kw @ q" using Cons.IH by blast
      then have "c # cs = (c # p) @ kw @ q" by simp
      then show ?thesis by blast
    qed
  next
    assume "\<exists>p q. c # cs = p @ kw @ q"
    then obtain p q where pq: "c # cs = p @ kw @ q" by blast
    show "contains kw (c # cs)"
    proof (cases p)
      case Nil
      with pq have "starts_with kw (c # cs)" by (auto simp: starts_with_iff)
      then show ?thesis by simp
    next
      case (Cons a p')
      with pq have "cs = p' @ kw @ q" by simp
      then have "contains kw cs" using Cons.IH by blast
      then show ?thesis by simp
    qed
  qed
qed

section \<open>Reading the effects of a run\<close>

lemma events_of_append: "events_of (fs @ gs) = events_of fs @ events_of gs"
  by (induction fs rule: events_of.induct) auto

lemma events_of_Yield: "events_of (map Yield es) = es"
  by (induction es) auto

lemma branches_run_append: "branches_run (fs @ gs) = branches_run fs @ branches_run gs"
  by (induction fs rule: branches_run.induct) auto

lemma branches_run_Yield: "branches_run (map Yield es) = []"
  by (induction es) auto

lemma state_reads_append: "state_reads (fs @ gs) = state_reads fs @ state_reads gs"
  by (induction fs rule: state_reads.induct) auto

lemma state_reads_Yield: "state_reads (map Yield es) = []"
  by (induction es) auto

lemmas observe =
  events_of_append events_of_Yield branches_run_append branches_run_Yield
  state_reads_append state_reads_Yield

lemmas examples =
  new_session_def user_message_def user_input_of_def lower_def lower_char_def
  math_query_def time_query_def weather_query_def master_def
  writing_agent_def silent_agent_def raising_agent_def
  quiet_master_def no_message_def two_parts_def

lemmas run_defs = run_async_impl_def Let_def emit_final_def

section \<open>The Router's rules\<close>

text \<open>
  Claim C1. Whenever the lower-cased request text contains \<open>time\<close> and also one of the
  math keywords (\<open>add\<close>, \<open>subtract\<close>, \<open>+\<close>, \<open>-\<close>), the only branch the Router starts is
  the time branch: the math branch is never run.
\<close>

theorem router_time_rule_first:
  assumes "contains ''time'' (lower (user_input_of ctx))"
      and "math_keyword (lower (user_input_of ctx))"
  shows "branches_run (effects (run_async_impl self ctx)) = [TimeBranch]
         \<and> RunAsync MathBranch \<notin> set (effects (run_async_impl self ctx))"
  using assms(1)
  by (auto simp add: run_defs observe split: option.splits)

theorem router_time_rule_first_witness:
  "contains ''time'' (lower (user_input_of (new_session weather_query)))
   \<and> math_keyword (lower (user_input_of (new_session weather_query)))
   \<and> branches_run (effects (run_async_impl master (new_session weather_query))) = [TimeBranch]
   \<and> RunAsync MathBranch \<notin> set (effects (run_async_impl master (new_session weather_query)))"
proof -
  have h1: "contains ''time'' (lower (user_input_of (new_session weather_query)))"
    by (simp add: examples)
  have h2: "math_keyword (lower (user_input_of (new_session weather_query)))"
    by (simp add: examples)
  show ?thesis
    using h1 h2 router_time_rule_first [OF h1 h2, of master] by blast
qed


text \<open>
  Claim C2. When the lower-cased request text contains neither \<open>time\<close> nor a math keyword,
  the Router starts no branch and yields exactly one event, its own, whose text is the fixed
  sentence \<open>I can only help with Math or Time requests.\<close> A missing user message, missing or
  empty parts, and a first part without text all give the empty request text, which
  contains no keyword.
\<close>

theorem router_no_match:
  "(\<not> contains ''time'' (lower (user_input_of ctx)) \<and> \<not> math_keyword (lower (user_input_of ctx))
      \<longrightarrow> branches_run (effects (run_async_impl self ctx)) = []
        \<and> events_of (effects (run_async_impl self ctx))
            = [final_event self ''I can only help with Math or Time requests.'']
        \<and> event_text (final_event self ''I can only help with Math or Time requests.'')
            = Some ''I can only help with Math or Time requests.''
        \<and> failure (run_async_impl self ctx) = None)
   \<and> (user_content ctx = None
       \<or> (\<exists>c. user_content ctx = Some c
              \<and> (parts c = None \<or> parts c = Some []
                  \<or> (\<exists>p ps. parts c = Some (p # ps)
                             \<and> (part_text p = None \<or> part_text p = Some []))))
      \<longrightarrow> user_input_of ctx = []
        \<and> \<not> contains ''time'' (lower (user_input_of ctx))
        \<and> \<not> math_keyword (lower (user_input_of ctx)))"
proof (intro conjI impI)
  assume "user_content ctx = None
       \<or> (\<exists>c. user_content ctx = Some c
              \<and> (parts c = None \<or> parts c = Some []
                  \<or> (\<exists>p ps. parts c = Some (p # ps)
                             \<and> (part_text p = None \<or> part_text p = Some []))))"
  then show e: "user_input_of ctx = []"
    by (auto simp add: user_input_of_def)
  show "\<not> contains ''time'' (lower (user_input_of ctx))"
    by (simp add: e lower_def)
  show "\<not> math_keyword (lower (user_input_of ctx))"
    by (simp add: e lower_def)
qed (simp_all add: run_defs observe event_text_def final_event_def)

theorem router_no_match_witness:
  "user_content no_message = None
   \<and> \<not> contains ''time'' (lower (user_input_of (new_session ''Tell me a story'')))
   \<and> \<not> math_keyword (lower (user_input_of (new_session ''Tell me a story'')))
   \<and> user_input_of no_message = []
   \<and> branches_run (effects (run_async_impl master no_message)) = []
   \<and> events_of (effects (run_async_impl master no_message))
        = [final_event master ''I can only help with Math or Time requests.'']
   \<and> events_of (effects (run_async_impl master (new_session ''Tell me a story'')))
        = [final_event master ''I can only help with Math or Time requests.'']"
proof -
  have h0: "user_content no_message = None" by (simp add: no_message_def)
  have h1: "\<not> contains ''time'' (lower (user_input_of (new_session ''Tell me a story'')))"
    by code_simp
  have h2: "\<not> math_keyword (lower (user_input_of (new_session ''Tell me a story'')))"
    by code_simp
  show ?thesis
    using h0 h1 h2 router_no_match [of no_message master]
      router_no_match [of "new_session ''Tell me a story''" master]
    by blast
qed

text \<open>
  Claim C3, as stated, fails: a branch that raises takes the Router with it, and no final
  event is yielded. Here the time branch raises at once.
\<close>

theorem router_final_event_counterexample:
  "events_of (effects (run_async_impl (master\<lparr>time_branch := raising_agent\<rparr>) (new_session time_query))) = []
   \<and> failure (run_async_impl (master\<lparr>time_branch := raising_agent\<rparr>) (new_session time_query))
       = Some (PyException ''RuntimeError'')"
  by (simp add: run_defs observe examples)

text \<open>
  Claim C3, amended. In every run of the Router in which the branch that was started, if
  any, returns without raising, the run does not fail, and its events are those of that
  branch (none when no rule matched), in their order, followed by exactly one event of the
  Router itself, authored with the Router's name; that event is the last of the sequence.
\<close>

theorem router_final_event:
  assumes "delegated_raised self ctx = None"
  shows "failure (run_async_impl self ctx) = None
         \<and> (\<exists>final_text.
              events_of (effects (run_async_impl self ctx))
                = delegated_events self ctx @ [final_event self final_text]
              \<and> last (events_of (effects (run_async_impl self ctx))) = final_event self final_text
              \<and> author (final_event self final_text) = name self)"
  using assms
  by (auto simp add: run_defs observe delegated_raised_def delegated_events_def final_event_def
      split: option.splits if_splits)

theorem router_final_event_witness:
  "delegated_raised master (new_session math_query) = None
   \<and> failure (run_async_impl master (new_session math_query)) = None
   \<and> events_of (effects (run_async_impl master (new_session math_query)))
       = yielded (math_branch master (new_session math_query))
         @ [final_event master ''The calculated result is: 1'']"
proof -
  have h: "delegated_raised master (new_session math_query) = None"
    by (simp add: delegated_raised_def run_defs observe examples)
  have d: "delegated_events master (new_session math_query)
             = yielded (math_branch master (new_session math_query))"
    by (simp add: delegated_events_def run_defs observe examples)
  have l: "last (events_of (effects (run_async_impl master (new_session math_query))))
             = final_event master ''The calculated result is: 1''"
    by (simp add: run_defs observe examples state_get_def)
  show ?thesis
    using h d l router_final_event [OF h] by metis
qed

text \<open>
  Claim C4. When a branch was chosen and returned, and its key (\<open>time_result\<close> for the time
  branch, \<open>calc_result\<close> for the math branch) is not in the session state, the Router does
  not fail: its final event, the last of the run and authored with the Router's name, has
  the text \<open>The time is: Unknown Time\<close>, respectively
  \<open>The calculated result is: Unknown Result\<close>, with the placeholder in place of the value.
\<close>

theorem router_missing_key_fallback:
  "(contains ''time'' (lower (user_input_of ctx))
      \<and> raised (time_branch self ctx) = None
      \<and> state_after (time_branch self ctx) ''time_result'' = None
    \<longrightarrow> failure (run_async_impl self ctx) = None
        \<and> last (events_of (effects (run_async_impl self ctx)))
            = final_event self ''The time is: Unknown Time''
        \<and> event_text (last (events_of (effects (run_async_impl self ctx))))
            = Some ''The time is: Unknown Time''
        \<and> author (last (events_of (effects (run_async_impl self ctx)))) = name self
        \<and> events_of (effects (run_async_impl self ctx))
            = yielded (time_branch self ctx)
              @ [\<lparr>author = name self,
                  event_content =
                    Some \<lparr>role = ''model'',
                          parts = Some [\<lparr>part_text = Some ''The time is: Unknown Time''\<rparr>]\<rparr>\<rparr>])
   \<and> (\<not> contains ''time'' (lower (user_input_of ctx))
      \<and> math_keyword (lower (user_input_of ctx))
      \<and> raised (math_branch self ctx) = None
      \<and> state_after (math_branch self ctx) ''calc_result'' = None
    \<longrightarrow> failure (run_async_impl self ctx) = None
        \<and> last (events_of (effects (run_async_impl self ctx)))
            = final_event self ''The calculated result is: Unknown Result''
        \<and> event_text (last (events_of (effects (run_async_impl self ctx))))
            = Some ''The calculated result is: Unknown Result''
        \<and> author (last (events_of (effects (run_async_impl self ctx)))) = name self
        \<and> events_of (effects (run_async_impl self ctx))
            = yielded (math_branch self ctx)
              @ [\<lparr>author = name self,
                  event_content =
                    Some \<lparr>role = ''model'',
                          parts =
                            Some [\<lparr>part_text = Some ''The calculated result is: Unknown Result''\<rparr>]\<rparr>\<rparr>])"
proof (intro conjI impI)
  assume t: "contains ''time'' (lower (user_input_of ctx))
      \<and> raised (time_branch self ctx) = None
      \<and> state_after (time_branch self ctx) ''time_result'' = None"
  then have e: "events_of (effects (run_async_impl self ctx))
      = yielded (time_branch self ctx) @ [final_event self ''The time is: Unknown Time'']"
    by (simp add: run_defs observe state_get_def)
  from t show "failure (run_async_impl self ctx) = None"
    by (simp add: run_defs)
  show "last (events_of (effects (run_async_impl self ctx)))
          = final_event self ''The time is: Unknown Time''"
    by (simp add: e)
  show "event_text (last (events_of (effects (run_async_impl self ctx))))
          = Some ''The time is: Unknown Time''"
    by (simp add: e event_text_def final_event_def)
  show "author (last (events_of (effects (run_async_impl self ctx)))) = name self"
    by (simp add: e final_event_def)
  show "events_of (effects (run_async_impl self ctx))
          = yielded (time_branch self ctx)
            @ [\<lparr>author = name self,
                event_content =
                  Some \<lparr>role = ''model'',
                        parts = Some [\<lparr>part_text = Some ''The time is: Unknown Time''\<rparr>]\<rparr>\<rparr>]"
    by (simp add: e final_event_def)
next
  assume m: "\<not> contains ''time'' (lower (user_input_of ctx))
      \<and> math_keyword (lower (user_input_of ctx))
      \<and> raised (math_branch self ctx) = None
      \<and> state_after (math_branch self ctx) ''calc_result'' = None"
  then have e: "events_of (effects (run_async_impl self ctx))
      = yielded (math_branch self ctx)
        @ [final_event self ''The calculated result is: Unknown Result'']"
    by (simp add: run_defs observe state_get_def)
  from m show "failure (run_async_impl self ctx) = None"
    by (simp add: run_defs)
  show "last (events_of (effects (run_async_impl self ctx)))
          = final_event self ''The calculated result is: Unknown Result''"
    by (simp add: e)
  show "event_text (last (events_of (effects (run_async_impl self ctx))))
          = Some ''The calculated result is: Unknown Result''"
    by (simp add: e event_text_def final_event_def)
  show "author (last (events_of (effects (run_async_impl self ctx)))) = name self"
    by (simp add: e final_event_def)
  show "events_of (effects (run_async_impl self ctx))
          = yielded (math_branch self ctx)
            @ [\<lparr>author = name self,
                event_content =
                  Some \<lparr>role = ''model'',
                        parts =
                          Some [\<lparr>part_text = Some ''The calculated result is: Unknown Result''\<rparr>]\<rparr>\<rparr>]"
    by (simp add: e final_event_def)
qed

theorem router_missing_key_fallback_witness:
  "contains ''time'' (lower (user_input_of (new_session time_query)))
   \<and> raised (time_branch quiet_master (new_session time_query)) = None
   \<and> state_after (time_branch quiet_master (new_session time_query)) ''time_result'' = None
   \<and> \<not> contains ''time'' (lower (user_input_of (new_session math_query)))
   \<and> math_keyword (lower (user_input_of (new_session math_query)))
   \<and> raised (math_branch quiet_master (new_session math_query)) = None
   \<and> state_after (math_branch quiet_master (new_session math_query)) ''calc_result'' = None
   \<and> failure (run_async_impl quiet_master (new_session time_query)) = None
   \<and> last (events_of (effects (run_async_impl quiet_master (new_session time_query))))
       = final_event quiet_master ''The time is: Unknown Time''
   \<and> event_text (last (events_of (effects (run_async_impl quiet_master (new_session time_query)))))
       = Some ''The time is: Unknown Time''
   \<and> failure (run_async_impl quiet_master (new_session math_query)) = None
   \<and> last (events_of (effects (run_async_impl quiet_master (new_session math_query))))
       = final_event quiet_master ''The calculated result is: Unknown Result''
   \<and> event_text (last (events_of (effects (run_async_impl quiet_master (new_session math_query)))))
       = Some ''The calculated result is: Unknown Result''"
proof -
  have t1: "contains ''time'' (lower (user_input_of (new_session time_query)))"
    by code_simp
  have t2: "raised (time_branch quiet_master (new_session time_query)) = None"
    by (simp add: quiet_master_def silent_agent_def)
  have t3: "state_after (time_branch quiet_master (new_session time_query)) ''time_result'' = None"
    by (simp add: quiet_master_def silent_agent_def new_session_def)
  have m1: "\<not> contains ''time'' (lower (user_input_of (new_session math_query)))"
    by code_simp
  have m2: "math_keyword (lower (user_input_of (new_session math_query)))"
    by code_simp
  have m3: "raised (math_branch quiet_master (new_session math_query)) = None"
    by (simp add: quiet_master_def silent_agent_def)
  have m4: "state_after (math_branch quiet_master (new_session math_query)) ''calc_result'' = None"
    by (simp add: quiet_master_def silent_agent_def new_session_def)
  show ?thesis
    using t1 t2 t3 m1 m2 m3 m4
      router_missing_key_fallback [of "new_session time_query" quiet_master]
      router_missing_key_fallback [of "new_session math_query" quiet_master]
    by blast
qed

text \<open>
  Claim C5. The branch the Router starts depends on the lower-cased request text alone: two
  runs with the same lower-cased text start the same branch, whatever the session state and
  whatever the branch agents are. No read of the session state comes before the start of a
  branch, and a run that starts no branch neither reads nor changes the state.
\<close>

theorem router_selection_pure:
  "(lower (user_input_of ctx) = lower (user_input_of ctx')
      \<longrightarrow> branches_run (effects (run_async_impl self ctx))
          = branches_run (effects (run_async_impl self' ctx')))
   \<and> state_reads (before_dispatch (effects (run_async_impl self ctx))) = []
   \<and> (branches_run (effects (run_async_impl self ctx)) = []
      \<longrightarrow> state_reads (effects (run_async_impl self ctx)) = []
        \<and> final_state (run_async_impl self ctx) = session_state ctx)"
proof (intro conjI impI)
  assume "lower (user_input_of ctx) = lower (user_input_of ctx')"
  then show "branches_run (effects (run_async_impl self ctx))
          = branches_run (effects (run_async_impl self' ctx'))"
    by (simp add: run_defs observe split: option.splits)
next
  show "state_reads (before_dispatch (effects (run_async_impl self ctx))) = []"
    by (simp add: run_defs split: option.splits)
next
  assume "branches_run (effects (run_async_impl self ctx)) = []"
  then show "state_reads (effects (run_async_impl self ctx)) = []"
    by (simp add: run_defs observe split: option.splits if_splits)
next
  assume "branches_run (effects (run_async_impl self ctx)) = []"
  then show "final_state (run_async_impl self ctx) = session_state ctx"
    by (simp add: run_defs observe split: option.splits if_splits)
qed

theorem router_selection_pure_witness:
  "lower (user_input_of (new_session ''What is the TIME?''))
     = lower (user_input_of ((new_session time_query)\<lparr>session_state := [''time_result'' \<mapsto> ''noon'']\<rparr>))
   \<and> branches_run (effects (run_async_impl master (new_session ''What is the TIME?'')))
       = branches_run (effects (run_async_impl quiet_master
           ((new_session time_query)\<lparr>session_state := [''time_result'' \<mapsto> ''noon'']\<rparr>)))
   \<and> branches_run (effects (run_async_impl master no_message)) = []
   \<and> state_reads (effects (run_async_impl master no_message)) = []
   \<and> final_state (run_async_impl master no_message) = session_state no_message"
proof -
  have h: "lower (user_input_of (new_session ''What is the TIME?''))
     = lower (user_input_of ((new_session time_query)\<lparr>session_state := [''time_result'' \<mapsto> ''noon'']\<rparr>))"
    by code_simp
  have n: "branches_run (effects (run_async_impl master no_message)) = []"
    by (simp add: run_defs observe no_message_def user_input_of_def lower_def)
  show ?thesis
    using h n
      router_selection_pure [of "new_session ''What is the TIME?''"
        "(new_session time_query)\<lparr>session_state := [''time_result'' \<mapsto> ''noon'']\<rparr>"
        master quiet_master]
      router_selection_pure [of no_message no_message master master]
    by blast
qed

text \<open>
  Claim C8. When the lower-cased request text does not contain \<open>time\<close> but contains the
  character \<open>-\<close> anywhere, the Router starts the math branch, not the fallback; when that
  branch returns, the final event is the math summary.
\<close>

theorem router_hyphen_is_math:
  assumes "\<not> contains ''time'' (lower (user_input_of ctx))"
      and "contains ''-'' (lower (user_input_of ctx))"
  shows "branches_run (effects (run_async_impl self ctx)) = [MathBranch]
         \<and> (raised (math_branch self ctx) = None
            \<longrightarrow> last (events_of (effects (run_async_impl self ctx)))
                = final_event self (''The calculated result is: ''
                    @ state_get (state_after (math_branch self ctx))
                        ''calc_result'' ''Unknown Result''))"
  using assms
  by (simp add: run_defs observe split: option.splits)

theorem router_hyphen_is_math_witness:
  "\<not> contains ''time'' (lower (user_input_of (new_session ''Name a well-known poet'')))
   \<and> contains ''-'' (lower (user_input_of (new_session ''Name a well-known poet'')))
   \<and> raised (math_branch master (new_session ''Name a well-known poet'')) = None
   \<and> branches_run (effects (run_async_impl master (new_session ''Name a well-known poet'')))
       = [MathBranch]
   \<and> last (events_of (effects (run_async_impl master (new_session ''Name a well-known poet''))))
       = final_event master (''The calculated result is: ''
           @ state_get (state_after (math_branch master (new_session ''Name a well-known poet'')))
               ''calc_result'' ''Unknown Result'')"
proof -
  have h1: "\<not> contains ''time'' (lower (user_input_of (new_session ''Name a well-known poet'')))"
    by code_simp
  have h2: "contains ''-'' (lower (user_input_of (new_session ''Name a well-known poet'')))"
    by code_simp
  have h3: "raised (math_branch master (new_session ''Name a well-known poet'')) = None"
    by (simp add: master_def writing_agent_def)
  show ?thesis
    using h1 h2 h3 router_hyphen_is_math [OF h1 h2, of master] by blast
qed

text \<open>
  Claim C9. Only \<open>parts[0]\<close> of the user message is read: two messages with the same first
  part give the same request text and start the same branch, whatever their other parts,
  so a keyword in a later part does not route.
\<close>

theorem router_first_part_only:
  assumes "user_content ctx = Some c" and "parts c = Some (p # ps)"
      and "user_content ctx' = Some c'" and "parts c' = Some (p # ps')"
  shows "user_input_of ctx = user_input_of ctx'
         \<and> branches_run (effects (run_async_impl self ctx))
             = branches_run (effects (run_async_impl self ctx'))"
proof -
  have e: "user_input_of ctx = user_input_of ctx'"
    using assms by (simp add: user_input_of_def)
  then show ?thesis
    by (simp add: run_defs observe split: option.splits)
qed

theorem router_first_part_only_witness:
  "user_input_of (two_parts ''Hello there'' ''What is the time?'')
     = user_input_of (new_session ''Hello there'')
   \<and> branches_run (effects (run_async_impl master (two_parts ''Hello there'' ''What is the time?'')))
       = branches_run (effects (run_async_impl master (new_session ''Hello there'')))
   \<and> branches_run (effects (run_async_impl master (new_session ''Hello there''))) = []"
proof -
  have a: "user_content (two_parts ''Hello there'' ''What is the time?'')
             = Some \<lparr>role = ''user'', parts = Some [\<lparr>part_text = Some ''Hello there''\<rparr>,
                                                   \<lparr>part_text = Some ''What is the time?''\<rparr>]\<rparr>"
    by (simp add: two_parts_def)
  have b: "user_content (new_session ''Hello there'')
             = Some \<lparr>role = ''user'', parts = Some [\<lparr>part_text = Some ''Hello there''\<rparr>]\<rparr>"
    by (simp add: new_session_def user_message_def)
  have n: "branches_run (effects (run_async_impl master (new_session ''Hello there''))) = []"
    by code_simp
  show ?thesis
    using n router_first_part_only [OF a _ b, of "\<lparr>part_text = Some ''Hello there''\<rparr>"
        "[\<lparr>part_text = Some ''What is the time?''\<rparr>]" "[]" master]
    by simp
qed

text \<open>
  Claim C10, as stated, fails: on the math path a branch that raises ends the run before
  the final text is built, and no terminal event is yielded.
\<close>

theorem router_terminal_event_counterexample:
  "effects (run_async_impl (master\<lparr>math_branch := raising_agent\<rparr>) (new_session math_query))
     = [LogInfo ''[MasterOrchestrator] User Input: What is 9 added to 5 and then 13 subtracted from the result?'',
        LogInfo ''[MasterOrchestrator] Routing to Math Branch'',
        RunAsync MathBranch]
   \<and> failure (run_async_impl (master\<lparr>math_branch := raising_agent\<rparr>) (new_session math_query))
       = Some (PyException ''RuntimeError'')"
  by code_simp

text \<open>
  Claim C10, amended. The three rules cover every request text, and the Router raises
  nothing of its own: a run fails exactly with the exception of the branch it started. In
  every run in which that branch, if any, returns without raising, the last thing the
  Router does is to yield its terminal event, whose content has exactly one part, with a
  text that is not empty.
\<close>

theorem router_terminal_event_total:
  "failure (run_async_impl self ctx) = delegated_raised self ctx
   \<and> (delegated_raised self ctx = None
      \<longrightarrow> (\<exists>final_text.
            last (effects (run_async_impl self ctx)) = Yield (final_event self final_text)
            \<and> event_content (final_event self final_text)
                = Some \<lparr>role = ''model'', parts = Some [\<lparr>part_text = Some final_text\<rparr>]\<rparr>
            \<and> final_text \<noteq> []))"
  by (auto simp add: run_defs observe delegated_raised_def final_event_def split: option.splits)

theorem router_terminal_event_total_witness:
  "delegated_raised master (new_session time_query) = None
   \<and> failure (run_async_impl master (new_session time_query)) = None
   \<and> last (effects (run_async_impl master (new_session time_query)))
       = Yield (final_event master ''The time is: 12:00:00'')"
proof -
  have h: "delegated_raised master (new_session time_query) = None"
    by (simp add: delegated_raised_def run_defs observe examples)
  have l: "last (effects (run_async_impl master (new_session time_query)))
       = Yield (final_event master ''The time is: 12:00:00'')"
    by (simp add: run_defs observe examples state_get_def)
  show ?thesis
    using h l router_terminal_event_total [of master "new_session time_query"] by metis
qed

section \<open>Schedules and interleavings\<close>

text \<open>The merge of two children by a schedule is an interleaving of their steps, and every
  interleaving comes from some schedule.\<close>

lemma interleave2_shuffles: "interleave sched [xs, ys] \<in> shuffles xs ys"
proof (induction sched arbitrary: xs ys)
  case Nil
  show ?case
    by (induction xs) (auto simp: Cons_in_shuffles_leftI)
next
  case (Cons i sched)
  note IH = Cons.IH
  consider "i = 0" | "i = 1" | "i \<ge> 2" by linarith
  then show ?case
  proof cases
    case 1
    show ?thesis
    proof (cases xs)
      case Nil
      then show ?thesis using IH [of "[]" ys] 1 by (simp add: take_from_def)
    next
      case (Cons x xs')
      then show ?thesis using IH [of xs' ys] 1
        by (simp add: take_from_def Cons_in_shuffles_leftI)
    qed
  next
    case 2
    show ?thesis
    proof (cases ys)
      case Nil
      then show ?thesis using IH [of xs "[]"] 2 by (simp add: take_from_def)
    next
      case (Cons y ys')
      then show ?thesis using IH [of xs ys'] 2
        by (simp add: take_from_def Cons_in_shuffles_rightI)
    qed
  next
    case 3
    then show ?thesis using IH [of xs ys] by (simp add: take_from_def)
  qed
qed

lemma shuffles_interleave2: "zs \<in> shuffles xs ys \<Longrightarrow> \<exists>sched. interleave sched [xs, ys] = zs"
proof (induction xs ys arbitrary: zs rule: shuffles.induct)
  case (1 ys)
  then have "interleave [] [[], ys] = zs" by simp
  then show ?case by blast
next
  case (2 xs)
  then have "interleave [] [xs, []] = zs" by simp
  then show ?case by blast
next
  case (3 x xs y ys)
  from "3.prems" consider zs' where "zs = x # zs'" "zs' \<in> shuffles xs (y # ys)"
    | zs' where "zs = y # zs'" "zs' \<in> shuffles (x # xs) ys"
    by auto
  then show ?case
  proof cases
    case 1
    then obtain sched where "interleave sched [xs, y # ys] = zs'" using "3.IH"(1) by blast
    then have "interleave (0 # sched) [x # xs, y # ys] = zs" using 1 by (simp add: take_from_def)
    then show ?thesis by blast
  next
    case 2
    then obtain sched where "interleave sched [x # xs, ys] = zs'" using "3.IH"(2) by blast
    then have "interleave (1 # sched) [x # xs, y # ys] = zs" using 2 by (simp add: take_from_def)
    then show ?thesis by blast
  qed
qed

lemma apply_steps_Nil: "apply_steps st [] = st"
  by (simp add: apply_steps_def)

lemma apply_steps_Cons: "apply_steps st (s # ss) = apply_steps (apply_step st s) ss"
  by (simp add: apply_steps_def)

lemma unwritten_unchanged: "k \<notin> set (written ss) \<Longrightarrow> apply_steps st ss k = st k"
  by (induction ss arbitrary: st rule: written.induct) (auto simp: apply_steps_Nil apply_steps_Cons)

lemma written_determined:
  "k \<in> set (written ss) \<Longrightarrow> apply_steps st ss k = apply_steps st' ss k"
proof (induction ss arbitrary: st st' rule: written.induct)
  case 1
  then show ?case by simp
next
  case (2 k' v ss)
  show ?case
  proof (cases "k \<in> set (written ss)")
    case True
    then show ?thesis using "2.IH" by (simp add: apply_steps_Cons)
  next
    case False
    with "2.prems" have "k = k'" by simp
    with False show ?thesis by (simp add: apply_steps_Cons unwritten_unchanged)
  qed
next
  case (3 e ss)
  then show ?case by (simp add: apply_steps_Cons)
qed

lemma written_present: "k \<in> set (written ss) \<Longrightarrow> k \<in> dom (apply_steps st ss)"
proof (induction ss arbitrary: st rule: written.induct)
  case 1
  then show ?case by simp
next
  case (2 k' v ss)
  show ?case
  proof (cases "k \<in> set (written ss)")
    case True
    then show ?thesis using "2.IH" by (simp add: apply_steps_Cons)
  next
    case False
    with "2.prems" have "k = k'" by simp
    with False have "apply_steps st (Write k' v # ss) k = Some v"
      by (simp add: apply_steps_Cons unwritten_unchanged)
    then show ?thesis by blast
  qed
next
  case (3 e ss)
  then show ?case by (simp add: apply_steps_Cons)
qed

lemma written_shuffles: "zs \<in> shuffles xs ys \<Longrightarrow> set (written zs) = set (written xs) \<union> set (written ys)"
proof (induction xs ys arbitrary: zs rule: shuffles.induct)
  case (3 x xs y ys)
  then show ?case by (cases x; cases y) auto
qed auto

lemma shuffles_keeps_left:
  assumes "zs \<in> shuffles xs ys"
      and "set (written xs) \<inter> set (written ys) = {}"
      and "k \<in> set (written xs)"
  shows "apply_steps st zs k = apply_steps st xs k"
  using assms
proof (induction xs ys arbitrary: zs st rule: shuffles.induct)
  case (1 ys)
  then show ?case by simp
next
  case (2 xs)
  then show ?case by simp
next
  case (3 x xs y ys)
  from "3.prems"(1) consider zs' where "zs = x # zs'" "zs' \<in> shuffles xs (y # ys)"
    | zs' where "zs = y # zs'" "zs' \<in> shuffles (x # xs) ys"
    by auto
  then show ?case
  proof cases
    case 1
    have dj: "set (written xs) \<inter> set (written (y # ys)) = {}"
      using "3.prems"(2) by (cases x) auto
    show ?thesis
    proof (cases "k \<in> set (written xs)")
      case True
      then show ?thesis using "3.IH"(1) [OF 1(2) dj True] 1(1) by (simp add: apply_steps_Cons)
    next
      case False
      have "k \<notin> set (written (y # ys))" using "3.prems"(2,3) by auto
      with False have "k \<notin> set (written zs')" using written_shuffles [OF 1(2)] by simp
      with False show ?thesis using 1(1) by (simp add: apply_steps_Cons unwritten_unchanged)
    qed
  next
    case 2
    have dj: "set (written (x # xs)) \<inter> set (written ys) = {}"
      using "3.prems"(2) by (cases y) auto
    have ky: "apply_step st y k = st k"
      using "3.prems"(2,3) by (cases y) auto
    have "apply_steps st zs k = apply_steps (apply_step st y) (x # xs) k"
      using "3.IH"(2) [OF 2(2) dj "3.prems"(3)] 2(1) by (simp add: apply_steps_Cons)
    also have "\<dots> = apply_steps st (x # xs) k"
      using written_determined [OF "3.prems"(3)] by blast
    finally show ?thesis .
  qed
qed

lemma shuffles_keeps_right:
  assumes "zs \<in> shuffles xs ys"
      and "set (written xs) \<inter> set (written ys) = {}"
      and "k \<in> set (written ys)"
  shows "apply_steps st zs k = apply_steps st ys k"
proof -
  have "zs \<in> shuffles ys xs" using assms(1) by (simp add: shuffles_commutes)
  moreover have "set (written ys) \<inter> set (written xs) = {}" using assms(2) by blast
  ultimately show ?thesis using assms(3) by (rule shuffles_keeps_left)
qed

lemma emitted_append: "emitted (xs @ ys) = emitted xs @ emitted ys"
  by (induction xs rule: emitted.induct) auto

lemma parallel_stage_keys:
  assumes "cap PROS_Agent req st = Some p" and "cap CONS_Agent req st = Some c"
  shows "apply_steps st (steps (run_agent cap sched req parallel_stage st)) ''PROS'' = Some p"
    and "apply_steps st (steps (run_agent cap sched req parallel_stage st)) ''CONS'' = Some c"
    and "failed (run_agent cap sched req parallel_stage st) = []"
proof -
  let ?xs = "steps (leaf_run cap req PROS_Agent st)"
  let ?ys = "steps (leaf_run cap req CONS_Agent st)"
  have xs: "?xs = [Write ''PROS'' p, Emit \<lparr>author = ''PROSAgent'', event_content =
              Some \<lparr>role = ''model'', parts = Some [\<lparr>part_text = Some p\<rparr>]\<rparr>\<rparr>]"
    using assms(1) by (simp add: leaf_run_def PROS_Agent_def)
  have ys: "?ys = [Write ''CONS'' c, Emit \<lparr>author = ''CONSAgent'', event_content =
              Some \<lparr>role = ''model'', parts = Some [\<lparr>part_text = Some c\<rparr>]\<rparr>\<rparr>]"
    using assms(2) by (simp add: leaf_run_def CONS_Agent_def)
  have sh: "steps (run_agent cap sched req parallel_stage st) \<in> shuffles ?xs ?ys"
    by (simp add: parallel_stage_def Let_def interleave2_shuffles)
  have dj: "set (written ?xs) \<inter> set (written ?ys) = {}"
    by (simp add: xs ys)
  have "apply_steps st (steps (run_agent cap sched req parallel_stage st)) ''PROS''
          = apply_steps st ?xs ''PROS''"
    by (rule shuffles_keeps_left [OF sh dj]) (simp add: xs)
  then show "apply_steps st (steps (run_agent cap sched req parallel_stage st)) ''PROS'' = Some p"
    by (simp add: xs apply_steps_def)
  have "apply_steps st (steps (run_agent cap sched req parallel_stage st)) ''CONS''
          = apply_steps st ?ys ''CONS''"
    by (rule shuffles_keeps_right [OF sh dj]) (simp add: ys)
  then show "apply_steps st (steps (run_agent cap sched req parallel_stage st)) ''CONS'' = Some c"
    by (simp add: ys apply_steps_def)
  show "failed (run_agent cap sched req parallel_stage st) = []"
    using assms by (simp add: parallel_stage_def Let_def leaf_run_def)
qed

lemmas workflows =
  PROS_Agent_def CONS_Agent_def parallel_stage_def final_agent_def orchestrator_def
  city_agent_def country_agent_def orchestrator_agent_def
  echo_def offline_def second_first_def pizza_query_def travel_query_def
  leaf_run_def take_from_def apply_steps_def Let_def

section \<open>Composition\<close>

text \<open>
  Claim C6. In the run of a Sequential agent with children \<open>A\<close> and \<open>B\<close>, when \<open>A\<close> does not
  fail, the steps are those of \<open>A\<close> followed by those of \<open>B\<close>, so every event of \<open>B\<close> comes
  after every event of \<open>A\<close>, and \<open>B\<close> runs on the state left by \<open>A\<close>, in which every key
  written by \<open>A\<close> is present; when \<open>A\<close> fails, \<open>B\<close> does not run. For the orchestrator of
  \<open>Workflow-3.py\<close>: when the capabilities of both parallel children answer, the
  FinalSynthesizer runs after all steps of the parallel stage, on a state that holds what
  was written under \<open>PROS\<close> and under \<open>CONS\<close>, under any schedule.
\<close>

theorem sequential_order_and_state:
  fixes cap sched req A B st n p c
  defines "rA \<equiv> run_agent cap sched req A st"
      and "rB \<equiv> run_agent cap sched req B (apply_steps st (steps (run_agent cap sched req A st)))"
      and "r \<equiv> run_agent cap sched req (SequentialAgent n [A, B]) st"
      and "stage \<equiv> run_agent cap sched req parallel_stage st"
  shows "(failed rA = []
            \<longrightarrow> steps r = steps rA @ steps rB
              \<and> emitted (steps r) = emitted (steps rA) @ emitted (steps rB)
              \<and> failed r = failed rB
              \<and> (\<forall>k \<in> set (written (steps rA)). k \<in> dom (apply_steps st (steps rA))))
         \<and> (failed rA \<noteq> [] \<longrightarrow> r = rA)
         \<and> (cap PROS_Agent req st = Some p \<and> cap CONS_Agent req st = Some c
            \<longrightarrow> steps (run_agent cap sched req orchestrator st)
                  = steps stage @ steps (leaf_run cap req final_agent (apply_steps st (steps stage)))
              \<and> apply_steps st (steps stage) ''PROS'' = Some p
              \<and> apply_steps st (steps stage) ''CONS'' = Some c)"
proof (intro conjI impI)
  assume ok: "failed rA = []"
  then show s: "steps r = steps rA @ steps rB"
    unfolding r_def rA_def rB_def by (simp add: Let_def)
  then show "emitted (steps r) = emitted (steps rA) @ emitted (steps rB)"
    by (simp add: emitted_append)
  from ok show "failed r = failed rB"
    unfolding r_def rA_def rB_def by (simp add: Let_def)
  show "\<forall>k \<in> set (written (steps rA)). k \<in> dom (apply_steps st (steps rA))"
    using written_present by blast
next
  assume "failed rA \<noteq> []"
  then show "r = rA"
    unfolding r_def rA_def by (simp add: Let_def)
next
  assume pc: "cap PROS_Agent req st = Some p \<and> cap CONS_Agent req st = Some c"
  then have f: "failed stage = []"
    unfolding stage_def using parallel_stage_keys(3) by blast
  then show "steps (run_agent cap sched req orchestrator st)
               = steps stage @ steps (leaf_run cap req final_agent (apply_steps st (steps stage)))"
    unfolding stage_def orchestrator_def by (simp add: Let_def)
  from pc show "apply_steps st (steps stage) ''PROS'' = Some p"
    unfolding stage_def using parallel_stage_keys(1) by blast
  from pc show "apply_steps st (steps stage) ''CONS'' = Some c"
    unfolding stage_def using parallel_stage_keys(2) by blast
qed

theorem sequential_order_and_state_witness:
  "failed (run_agent echo second_first travel_query (LlmAgent country_agent) Map.empty) = []
   \<and> emitted (steps (run_agent echo second_first travel_query
         (SequentialAgent ''OrchestratorAgent'' [LlmAgent country_agent, LlmAgent city_agent])
         Map.empty))
       = emitted (steps (run_agent echo second_first travel_query (LlmAgent country_agent) Map.empty))
         @ emitted (steps (run_agent echo second_first travel_query (LlmAgent city_agent)
             (apply_steps Map.empty
                (steps (run_agent echo second_first travel_query (LlmAgent country_agent) Map.empty)))))
   \<and> ''country_recommendations''
       \<in> set (written (steps (run_agent echo second_first travel_query (LlmAgent country_agent) Map.empty)))
   \<and> ''country_recommendations''
       \<in> dom (apply_steps Map.empty
                (steps (run_agent echo second_first travel_query (LlmAgent country_agent) Map.empty)))
   \<and> failed (run_agent offline second_first travel_query (LlmAgent country_agent) Map.empty) \<noteq> []
   \<and> run_agent offline second_first travel_query
         (SequentialAgent ''OrchestratorAgent'' [LlmAgent country_agent, LlmAgent city_agent])
         Map.empty
       = run_agent offline second_first travel_query (LlmAgent country_agent) Map.empty
   \<and> echo PROS_Agent pizza_query Map.empty = Some (''PROSAgent: '' @ pizza_query)
   \<and> echo CONS_Agent pizza_query Map.empty = Some (''CONSAgent: '' @ pizza_query)
   \<and> apply_steps Map.empty (steps (run_agent echo second_first pizza_query parallel_stage Map.empty))
         ''PROS'' = Some (''PROSAgent: '' @ pizza_query)
   \<and> apply_steps Map.empty (steps (run_agent echo second_first pizza_query parallel_stage Map.empty))
         ''CONS'' = Some (''CONSAgent: '' @ pizza_query)"
proof -
  have ok: "failed (run_agent echo second_first travel_query (LlmAgent country_agent) Map.empty) = []"
    by (simp add: leaf_run_def echo_def)
  have w: "''country_recommendations''
       \<in> set (written (steps (run_agent echo second_first travel_query (LlmAgent country_agent) Map.empty)))"
    by (simp add: leaf_run_def echo_def country_agent_def)
  have off: "failed (run_agent offline second_first travel_query (LlmAgent country_agent) Map.empty) \<noteq> []"
    by (simp add: leaf_run_def offline_def)
  have p: "echo PROS_Agent pizza_query Map.empty = Some (''PROSAgent: '' @ pizza_query)"
    by (simp add: echo_def PROS_Agent_def)
  have c: "echo CONS_Agent pizza_query Map.empty = Some (''CONSAgent: '' @ pizza_query)"
    by (simp add: echo_def CONS_Agent_def)
  show ?thesis
    using ok w off p c
      sequential_order_and_state [where cap = echo and sched = second_first
        and req = travel_query and A = "LlmAgent country_agent" and B = "LlmAgent city_agent"
        and st = Map.empty and n = "''OrchestratorAgent''"]
      sequential_order_and_state [where cap = offline and sched = second_first
        and req = travel_query and A = "LlmAgent country_agent" and B = "LlmAgent city_agent"
        and st = Map.empty and n = "''OrchestratorAgent''"]
      sequential_order_and_state [where cap = echo and sched = second_first
        and req = pizza_query and st = Map.empty
        and p = "''PROSAgent: '' @ pizza_query" and c = "''CONSAgent: '' @ pizza_query"]
    by blast
qed

text \<open>
  Claim C7. In the run of a Parallel agent with children \<open>A\<close> and \<open>B\<close> that write disjoint
  keys, under any schedule: the steps of the group are an interleaving of all the steps of
  \<open>A\<close> and all the steps of \<open>B\<close>, so the group ends only when both children have ended; and
  in the state after the group every key written by either child is present, with the value
  that child gave it.
\<close>

theorem parallel_disjoint_writers:
  fixes cap sched req A B st n
  defines "rA \<equiv> run_agent cap sched req A st"
      and "rB \<equiv> run_agent cap sched req B st"
      and "r \<equiv> run_agent cap sched req (ParallelAgent n [A, B]) st"
  assumes "set (written (steps rA)) \<inter> set (written (steps rB)) = {}"
  shows "steps r \<in> shuffles (steps rA) (steps rB)
         \<and> failed r = failed rA @ failed rB
         \<and> (\<forall>k \<in> set (written (steps rA)).
              k \<in> dom (apply_steps st (steps r))
              \<and> apply_steps st (steps r) k = apply_steps st (steps rA) k)
         \<and> (\<forall>k \<in> set (written (steps rB)).
              k \<in> dom (apply_steps st (steps r))
              \<and> apply_steps st (steps r) k = apply_steps st (steps rB) k)"
proof -
  have sh: "steps r \<in> shuffles (steps rA) (steps rB)"
    unfolding r_def rA_def rB_def by (simp add: Let_def interleave2_shuffles)
  have f: "failed r = failed rA @ failed rB"
    unfolding r_def rA_def rB_def by (simp add: Let_def)
  have a: "k \<in> dom (apply_steps st (steps r)) \<and> apply_steps st (steps r) k = apply_steps st (steps rA) k"
    if "k \<in> set (written (steps rA))" for k
    using that written_shuffles [OF sh] written_present [of k "steps r" st]
      shuffles_keeps_left [OF sh assms(4) that] by simp
  have b: "k \<in> dom (apply_steps st (steps r)) \<and> apply_steps st (steps r) k = apply_steps st (steps rB) k"
    if "k \<in> set (written (steps rB))" for k
    using that written_shuffles [OF sh] written_present [of k "steps r" st]
      shuffles_keeps_right [OF sh assms(4) that] by simp
  show ?thesis using sh f a b by blast
qed

theorem parallel_disjoint_writers_witness:
  "set (written (steps (run_agent echo second_first pizza_query (LlmAgent PROS_Agent) Map.empty)))
     \<inter> set (written (steps (run_agent echo second_first pizza_query (LlmAgent CONS_Agent) Map.empty)))
     = {}
   \<and> ''PROS'' \<in> set (written (steps (run_agent echo second_first pizza_query (LlmAgent PROS_Agent) Map.empty)))
   \<and> ''CONS'' \<in> set (written (steps (run_agent echo second_first pizza_query (LlmAgent CONS_Agent) Map.empty)))
   \<and> ''PROS'' \<in> dom (apply_steps Map.empty (steps (run_agent echo second_first pizza_query
         (ParallelAgent ''ParallelStage'' [LlmAgent PROS_Agent, LlmAgent CONS_Agent]) Map.empty)))
   \<and> ''CONS'' \<in> dom (apply_steps Map.empty (steps (run_agent echo second_first pizza_query
         (ParallelAgent ''ParallelStage'' [LlmAgent PROS_Agent, LlmAgent CONS_Agent]) Map.empty)))
   \<and> steps (run_agent echo second_first pizza_query
         (ParallelAgent ''ParallelStage'' [LlmAgent PROS_Agent, LlmAgent CONS_Agent]) Map.empty)
       \<in> shuffles (steps (run_agent echo second_first pizza_query (LlmAgent PROS_Agent) Map.empty))
           (steps (run_agent echo second_first pizza_query (LlmAgent CONS_Agent) Map.empty))"
proof -
  have dj: "set (written (steps (run_agent echo second_first pizza_query (LlmAgent PROS_Agent) Map.empty)))
     \<inter> set (written (steps (run_agent echo second_first pizza_query (LlmAgent CONS_Agent) Map.empty)))
     = {}"
    by (simp add: leaf_run_def echo_def PROS_Agent_def CONS_Agent_def)
  have wp: "''PROS'' \<in> set (written (steps (run_agent echo second_first pizza_query (LlmAgent PROS_Agent) Map.empty)))"
    by (simp add: leaf_run_def echo_def PROS_Agent_def)
  have wc: "''CONS'' \<in> set (written (steps (run_agent echo second_first pizza_query (LlmAgent CONS_Agent) Map.empty)))"
    by (simp add: leaf_run_def echo_def CONS_Agent_def)
  show ?thesis
    using dj wp wc
      parallel_disjoint_writers [OF dj, of "''ParallelStage''"]
    by blast
qed

end
